theory Spec2Isabelle
  imports Main "HOL-Library.Sublist"
begin

section \<open>Strings, character classes and backtracking quantifiers\<close>

text \<open>
  The script \<^verbatim>\<open>scripts/make_release_notes.py\<close> is Python 2 (it matches a \<^verbatim>\<open>str\<close>
  pattern on the output of \<^verbatim>\<open>subprocess.check_output\<close>), so its strings are byte
  strings: \<^typ>\<open>string\<close>, a list of 8-bit characters. The classes of \<^verbatim>\<open>re\<close> are the
  ASCII ones (no flag is given to any pattern).
\<close>

definition newline :: char where
  "newline = CHR 0x0A"

definition is_space :: "char \<Rightarrow> bool" where
  \<comment> \<open>\<^verbatim>\<open>\s\<close>: space, tab, line feed, vertical tab, form feed, carriage return\<close>
  "is_space c = (c \<in> set [CHR '' '', CHR 0x09, CHR 0x0A, CHR 0x0B, CHR 0x0C, CHR 0x0D])"

definition is_digit :: "char \<Rightarrow> bool" where
  \<comment> \<open>\<^verbatim>\<open>\d\<close>\<close>
  "is_digit c = (c \<in> set ''0123456789'')"

definition is_word :: "char \<Rightarrow> bool" where
  \<comment> \<open>\<^verbatim>\<open>\w\<close>\<close>
  "is_word c =
     (c \<in> set ''abcdefghijklmnopqrstuvwxyzABCDEFGHIJKLMNOPQRSTUVWXYZ0123456789_'')"

definition not_newline :: "char \<Rightarrow> bool" where
  \<comment> \<open>\<^verbatim>\<open>.\<close> (no DOTALL flag)\<close>
  "not_newline c = (c \<noteq> newline)"

definition any_char :: "char \<Rightarrow> bool" where
  \<comment> \<open>\<^verbatim>\<open>[\s\S]\<close>\<close>
  "any_char c = True"

definition end_of_string :: "string \<Rightarrow> bool" where
  \<comment> \<open>\<^verbatim>\<open>$\<close> (no MULTILINE flag): at the end, or before a line feed that ends the string\<close>
  "end_of_string s = (s = [] \<or> s = [newline])"

text \<open>
  A greedy quantifier \<^verbatim>\<open>p*\<close> followed by the rest \<open>k\<close> of the pattern, in the order
  a backtracking engine tries: one more character first, and where the rest then fails,
  stop here. The result is what the quantifier consumed.
\<close>

fun greedy_then :: "(char \<Rightarrow> bool) \<Rightarrow> (string \<Rightarrow> bool) \<Rightarrow> string \<Rightarrow> string option" where
  "greedy_then p k [] = (if k [] then Some [] else None)"
| "greedy_then p k (c # cs) =
     (case (if p c then greedy_then p k cs else None) of
        Some m \<Rightarrow> Some (c # m)
      | None \<Rightarrow> if k (c # cs) then Some [] else None)"

text \<open>The lazy quantifier \<^verbatim>\<open>p*?\<close>: stop here first, one more character otherwise.\<close>

fun lazy_then :: "(char \<Rightarrow> bool) \<Rightarrow> (string \<Rightarrow> bool) \<Rightarrow> string \<Rightarrow> string option" where
  "lazy_then p k [] = (if k [] then Some [] else None)"
| "lazy_then p k (c # cs) =
     (if k (c # cs) then Some []
      else if p c then map_option ((#) c) (lazy_then p k cs) else None)"

section \<open>Repository resolution\<close>

datatype error = LookupError string

definition remote_prefix :: "string \<Rightarrow> string option" where
  \<comment> \<open>\<^verbatim>\<open>^(?:git@github\.com:|https://github\.com/)\<close>: what follows the prefix\<close>
  "remote_prefix url =
     (if prefix ''git@github.com:'' url then Some (drop 15 url)
      else if prefix ''https://github.com/'' url then Some (drop 19 url)
      else None)"

definition git_suffix :: "string \<Rightarrow> bool" where
  \<comment> \<open>\<^verbatim>\<open>\.git$\<close>\<close>
  "git_suffix s = (prefix ''.git'' s \<and> end_of_string (drop 4 s))"

definition lookup_message :: "string \<Rightarrow> string" where
  \<comment> \<open>\<^verbatim>\<open>'Can\'t figure local repo from remote URL %s' % url\<close>\<close>
  "lookup_message url = ''Can'' @ [CHR 0x27] @ ''t figure local repo from remote URL '' @ url"

definition find_local_repo :: "string \<Rightarrow> error + string" where
  \<comment> \<open>\<open>url\<close> is what \<^verbatim>\<open>git config --get remote.origin.url\<close> printed\<close>
  "find_local_repo url =
     (case remote_prefix url of
        None \<Rightarrow> Inl (LookupError (lookup_message url))
      | Some rest \<Rightarrow>
          (case greedy_then not_newline git_suffix rest of
             Some repo \<Rightarrow> Inr repo
           | None \<Rightarrow> Inl (LookupError (lookup_message url))))"

section \<open>The Renderer\<close>

definition NO_HEADING :: string where
  "NO_HEADING = ''PRODUCT HAS NO HEADING''"

definition CHANGE_TYPE_MAPPING :: "string \<rightharpoonup> string" where
  "CHANGE_TYPE_MAPPING = [''added'' \<mapsto> ''feature'']"

record renderer =
  local_repo :: string
  product :: "string option"

definition Renderer_heading :: "renderer \<Rightarrow> string \<Rightarrow> string" where
  \<comment> \<open>\<^verbatim>\<open>if self.product:\<close> is false for \<^verbatim>\<open>None\<close> and for the empty string\<close>
  "Renderer_heading r heading =
     (case product r of
        None \<Rightarrow> heading
      | Some p \<Rightarrow>
          if p = [] then heading
          else if p = NO_HEADING then []
          else ''### '' @ p @ [newline])"

definition Renderer_bullet :: "renderer \<Rightarrow> string \<Rightarrow> string" where
  "Renderer_bullet r spacing = spacing @ ''* ''"

definition Renderer_change_type :: "renderer \<Rightarrow> string \<Rightarrow> string" where
  "Renderer_change_type r tag =
     (let tag' = (case CHANGE_TYPE_MAPPING tag of None \<Rightarrow> tag | Some t \<Rightarrow> t)
      in ''{{'' @ tag' @ ''}}'')"

definition strip_github :: "string \<Rightarrow> string option" where
  \<comment> \<open>\<^verbatim>\<open>//github.com/\<close>, whose dot is not escaped: any character but a line feed\<close>
  "strip_github u =
     (if prefix ''//github'' u then
        (case drop 8 u of
           [] \<Rightarrow> None
         | x # t \<Rightarrow> if not_newline x \<and> prefix ''com/'' t then Some (drop 4 t) else None)
      else None)"

definition issues_tail :: "string \<Rightarrow> string option" where
  \<comment> \<open>\<^verbatim>\<open>/issues/(\d+)$\<close>: the digits\<close>
  "issues_tail s =
     (if prefix ''/issues/'' s then
        (case drop 8 s of
           [] \<Rightarrow> None
         | d # t \<Rightarrow>
             if is_digit d then map_option ((#) d) (greedy_then is_digit end_of_string t)
             else None)
      else None)"

definition github_issue :: "string \<Rightarrow> (string \<times> string \<times> string) option" where
  \<comment> \<open>\<^verbatim>\<open>(//github.com/(.*)/issues/(\d+))$\<close>: groups 1, 2 and 3\<close>
  "github_issue u =
     (case strip_github u of
        None \<Rightarrow> None
      | Some rest \<Rightarrow>
          (case greedy_then not_newline (\<lambda>s. issues_tail s \<noteq> None) rest of
             None \<Rightarrow> None
           | Some repo \<Rightarrow>
               (case issues_tail (drop (length repo) rest) of
                  None \<Rightarrow> None
                | Some issue \<Rightarrow>
                    Some (take (13 + length repo + 8 + length issue) u, repo, issue))))"

definition issue_url_match :: "string \<Rightarrow> (string \<times> string \<times> string) option" where
  \<comment> \<open>\<^verbatim>\<open>^(?:https:)?(//github.com/(.*)/issues/(\d+))$\<close>\<close>
  "issue_url_match url =
     (case (if prefix ''https:'' url then github_issue (drop 6 url) else None) of
        Some g \<Rightarrow> Some g
      | None \<Rightarrow> github_issue url)"

definition Renderer_url :: "renderer \<Rightarrow> string \<Rightarrow> string" where
  "Renderer_url r url =
     (case issue_url_match url of
        Some (link, repo, issue) \<Rightarrow>
          (let txt = (if repo = local_repo r then ''#'' @ issue else repo @ ''#'' @ issue)
           in ''['' @ txt @ '']('' @ link @ '')'')
      | None \<Rightarrow> url)"

definition Renderer_local_issue_link :: "renderer \<Rightarrow> string \<Rightarrow> string" where
  "Renderer_local_issue_link r issue =
     (let link = ''//github.com/'' @ local_repo r @ ''/issues/'' @ issue
      in ''([#'' @ issue @ '']('' @ link @ ''))'')"

definition Renderer_text :: "renderer \<Rightarrow> string \<Rightarrow> string" where
  "Renderer_text r txt = txt"

section \<open>The Translator's rules\<close>

text \<open>
  A match object: \<open>group0\<close> is \<^verbatim>\<open>m.group(0)\<close>, the matched span, and \<open>group1\<close> is
  \<^verbatim>\<open>m.group(1)\<close> (empty for the two patterns without a group, whose callbacks
  never read it). Every rule is applied with \<^verbatim>\<open>match\<close>, at the start of the remaining
  text.
\<close>

datatype match = Match (group0: string) (group1: string)

definition Translator_heading :: "string \<Rightarrow> match option" where
  \<comment> \<open>\<^verbatim>\<open>^#.*\<close>\<close>
  "Translator_heading txt =
     (case txt of
        [] \<Rightarrow> None
      | c # rest \<Rightarrow>
          if c = CHR ''#''
          then map_option (\<lambda>m. Match (c # m) []) (greedy_then not_newline (\<lambda>s. True) rest)
          else None)"

definition bullet_tail :: "string \<Rightarrow> bool" where
  \<comment> \<open>\<^verbatim>\<open>[*+-] \<close>: a marker and a space\<close>
  "bullet_tail s = (case s of c # d # t \<Rightarrow> c \<in> set ''*+-'' \<and> d = CHR '' '' | _ \<Rightarrow> False)"

definition Translator_bullet :: "string \<Rightarrow> match option" where
  \<comment> \<open>\<^verbatim>\<open>^(\s*)[*+-] \<close>\<close>
  "Translator_bullet txt =
     map_option (\<lambda>ws. Match (ws @ take 2 (drop (length ws) txt)) ws)
       (greedy_then is_space bullet_tail txt)"

definition change_type_tail :: "string \<Rightarrow> bool" where
  \<comment> \<open>\<^verbatim>\<open>\](?!\()\<close>: a closing bracket that no opening parenthesis follows\<close>
  "change_type_tail s =
     (case s of
        [] \<Rightarrow> False
      | c # t \<Rightarrow> c = CHR '']'' \<and> (case t of [] \<Rightarrow> True | d # t' \<Rightarrow> d \<noteq> CHR ''(''))"

definition Translator_change_type :: "string \<Rightarrow> match option" where
  \<comment> \<open>\<^verbatim>\<open>\[(\w+)\](?!\()\<close>\<close>
  "Translator_change_type txt =
     (case txt of
        c # w # rest \<Rightarrow>
          if c = CHR ''['' \<and> is_word w
          then map_option (\<lambda>m. Match (c # w # m @ '']'') (w # m))
                 (greedy_then is_word change_type_tail rest)
          else None
      | _ \<Rightarrow> None)"

definition url_scheme :: "string \<Rightarrow> string option" where
  \<comment> \<open>\<^verbatim>\<open>https?://\<close>: what it matched\<close>
  "url_scheme s =
     (if prefix ''https://'' s then Some ''https://''
      else if prefix ''http://'' s then Some ''http://''
      else None)"

definition url_char :: "char \<Rightarrow> bool" where
  \<comment> \<open>\<^verbatim>\<open>[^\s<]\<close>\<close>
  "url_char c = (\<not> is_space c \<and> c \<noteq> CHR ''<'')"

definition url_last_char :: "char \<Rightarrow> bool" where
  \<comment> \<open>\<^verbatim>\<open>[^<.,:;"\')\]\s]\<close>\<close>
  "url_last_char c =
     (c \<notin> set [CHR ''<'', CHR ''.'', CHR '','', CHR '':'', CHR '';'', CHR 0x22, CHR 0x27,
                CHR '')'', CHR '']''] \<and> \<not> is_space c)"

definition url_tail :: "string \<Rightarrow> bool" where
  "url_tail s = (case s of [] \<Rightarrow> False | c # t \<Rightarrow> url_last_char c)"

definition Translator_url :: "string \<Rightarrow> match option" where
  \<comment> \<open>\<^verbatim>\<open>^(https?://[^\s<]+[^<.,:;"\')\]\s])\<close>\<close>
  "Translator_url txt =
     (case url_scheme txt of
        None \<Rightarrow> None
      | Some scheme \<Rightarrow>
          (case drop (length scheme) txt of
             [] \<Rightarrow> None
           | c # rest \<Rightarrow>
               if url_char c
               then map_option
                      (\<lambda>m. let u = scheme @ c # m @ take 1 (drop (length m) rest) in Match u u)
                      (greedy_then url_char url_tail rest)
               else None))"

definition issue_tail :: "string \<Rightarrow> bool" where
  \<comment> \<open>\<^verbatim>\<open>\)\<close>\<close>
  "issue_tail s = (case s of [] \<Rightarrow> False | c # t \<Rightarrow> c = CHR '')'')"

definition Translator_local_issue_link :: "string \<Rightarrow> match option" where
  \<comment> \<open>\<^verbatim>\<open>\(#(\d+)\)\<close>\<close>
  "Translator_local_issue_link txt =
     (case txt of
        a # b # d # rest \<Rightarrow>
          if a = CHR ''('' \<and> b = CHR ''#'' \<and> is_digit d
          then map_option (\<lambda>m. Match (a # b # d # m @ '')'') (d # m))
                 (greedy_then is_digit issue_tail rest)
          else None
      | _ \<Rightarrow> None)"

definition text_lookahead :: "string \<Rightarrow> bool" where
  \<comment> \<open>\<^verbatim>\<open>(?=[(\[\n]|https?://|$)\<close>\<close>
  "text_lookahead s =
     ((case s of [] \<Rightarrow> False | c # t \<Rightarrow> c \<in> set [CHR ''('', CHR ''['', newline])
      \<or> (case url_scheme s of None \<Rightarrow> False | Some scheme \<Rightarrow> True)
      \<or> end_of_string s)"

definition Translator_text :: "string \<Rightarrow> match option" where
  \<comment> \<open>\<^verbatim>\<open>^[\s\S]+?(?=[(\[\n]|https?://|$)\<close>\<close>
  "Translator_text txt =
     (case txt of
        [] \<Rightarrow> None
      | c # rest \<Rightarrow>
          if any_char c
          then map_option (\<lambda>m. Match (c # m) []) (lazy_then any_char text_lookahead rest)
          else None)"

section \<open>The Translator\<close>

datatype rule = Heading | Bullet | Change_type | Url | Local_issue_link | Text

definition rules :: "rule list" where
  "rules = [Heading, Bullet, Change_type, Url, Local_issue_link, Text]"

fun rule_match :: "rule \<Rightarrow> string \<Rightarrow> match option" where
  \<comment> \<open>\<^verbatim>\<open>getattr(self, key).match(text)\<close>\<close>
  "rule_match Heading = Translator_heading"
| "rule_match Bullet = Translator_bullet"
| "rule_match Change_type = Translator_change_type"
| "rule_match Url = Translator_url"
| "rule_match Local_issue_link = Translator_local_issue_link"
| "rule_match Text = Translator_text"

fun callback :: "renderer \<Rightarrow> rule \<Rightarrow> match \<Rightarrow> string" where
  \<comment> \<open>\<^verbatim>\<open>getattr(self, 'parse_' + key)(m)\<close>\<close>
  "callback r Heading m = Renderer_heading r (group0 m)"
| "callback r Bullet m = Renderer_bullet r (group1 m)"
| "callback r Change_type m = Renderer_change_type r (group1 m)"
| "callback r Url m = Renderer_url r (group1 m)"
| "callback r Local_issue_link m = Renderer_local_issue_link r (group1 m)"
| "callback r Text m = Renderer_text r (group0 m)"

text \<open>The \<^verbatim>\<open>for\<close> loop over the rules: the first rule that matches, if any.\<close>

fun first_match :: "rule list \<Rightarrow> string \<Rightarrow> (rule \<times> match) option" where
  "first_match [] txt = None"
| "first_match (key # keys) txt =
     (case rule_match key txt of
        None \<Rightarrow> first_match keys txt
      | Some m \<Rightarrow> Some (key, m))"

text \<open>
  The \<^verbatim>\<open>while text:\<close> loop. Where no rule matches, the \<^verbatim>\<open>for\<close> loop ends without a
  \<^verbatim>\<open>break\<close> and the \<^verbatim>\<open>while\<close> loop runs again on the same text: the loop does not
  return, which is the value \<open>None\<close> here.
\<close>

partial_function (option) translate_loop :: "renderer \<Rightarrow> string \<Rightarrow> string \<Rightarrow> string option" where
  "translate_loop r result txt =
     (if txt = [] then Some result
      else
        (case first_match rules txt of
           None \<Rightarrow> translate_loop r result txt
         | Some km \<Rightarrow>
             translate_loop r (result @ callback r (fst km) (snd km))
               (drop (length (group0 (snd km))) txt)))"

declare translate_loop.simps [code]

definition translate :: "renderer \<Rightarrow> string \<Rightarrow> string option" where
  "translate r txt = translate_loop r [] txt"

text \<open>
  The same loop, recording the matches instead of rendering them: the rule and the match
  object of every iteration, in order.
\<close>

partial_function (option) match_loop :: "(rule \<times> match) list \<Rightarrow> string \<Rightarrow> (rule \<times> match) list option" where
  "match_loop trace txt =
     (if txt = [] then Some trace
      else
        (case first_match rules txt of
           None \<Rightarrow> match_loop trace txt
         | Some km \<Rightarrow> match_loop (trace @ [km]) (drop (length (group0 (snd km))) txt)))"

declare match_loop.simps [code]

definition matches :: "string \<Rightarrow> (rule \<times> match) list option" where
  "matches txt = match_loop [] txt"

section \<open>The shapes of the remote URL\<close>

text \<open>
  The two shapes as the specification words them: \<^verbatim>\<open>git@github.com:<owner/repo>.git\<close>
  and \<^verbatim>\<open>https://github.com/<owner/repo>.git\<close>.
\<close>

definition remote_shape :: "string \<Rightarrow> string \<Rightarrow> bool" where
  "remote_shape url repo =
     (url = ''git@github.com:'' @ repo @ ''.git'' \<or> url = ''https://github.com/'' @ repo @ ''.git'')"

text \<open>That a string has one of the two shapes, for some identifier, decided on the string.\<close>

definition has_remote_shape :: "string \<Rightarrow> bool" where
  "has_remote_shape url =
     ((prefix ''git@github.com:'' url \<and> suffix ''.git'' (drop 15 url))
      \<or> (prefix ''https://github.com/'' url \<and> suffix ''.git'' (drop 19 url)))"

text \<open>
  What the pattern of \<open>find_local_repo\<close> accepts: one of the shapes, with an identifier
  that has no line feed in it, and possibly one line feed after it (as at the end of what
  \<^verbatim>\<open>git config\<close> prints).
\<close>

definition accepted_remote :: "string \<Rightarrow> string \<Rightarrow> bool" where
  "accepted_remote url repo =
     (newline \<notin> set repo \<and> (remote_shape url repo \<or> (\<exists>u. url = u @ [newline] \<and> remote_shape u repo)))"

section \<open>The trigger constructs\<close>














section \<open>What the quantifiers return\<close>

lemma greedy_then_SomeD:
  "greedy_then p k s = Some m \<Longrightarrow> \<exists>t. s = m @ t \<and> list_all p m \<and> k t"
proof (induction s arbitrary: m)
  case Nil
  then show ?case by (auto split: if_splits)
next
  case (Cons c cs)
  show ?case
  proof (cases "if p c then greedy_then p k cs else None")
    case None
    with Cons.prems show ?thesis by (auto split: if_splits)
  next
    case (Some m')
    then have pc: "p c" and g: "greedy_then p k cs = Some m'"
      by (auto split: if_splits)
    from Cons.prems Some have m: "m = c # m'" by simp
    from Cons.IH [OF g] obtain t where "cs = m' @ t" "list_all p m'" "k t" by blast
    with pc m show ?thesis by auto
  qed
qed

lemma greedy_then_longest:
  "list_all p m \<Longrightarrow> k t \<Longrightarrow> \<exists>m'. greedy_then p k (m @ t) = Some m' \<and> length m \<le> length m'"
proof (induction m)
  case Nil
  then show ?case by (cases t) (auto split: option.splits)
next
  case (Cons a m)
  then obtain m' where "greedy_then p k (m @ t) = Some m'" "length m \<le> length m'" by auto
  with Cons.prems show ?case by auto
qed

lemma greedy_then_disjoint:
  assumes "\<And>c cs. p c \<Longrightarrow> \<not> k (c # cs)"
  shows "greedy_then p k s = (if k (dropWhile p s) then Some (takeWhile p s) else None)"
  using assms by (induction s) auto

lemma greedy_then_always: "greedy_then p (\<lambda>s. True) s = Some (takeWhile p s)"
  by (induction s) auto

lemma lazy_then_SomeD: "lazy_then p k s = Some m \<Longrightarrow> \<exists>t. s = m @ t \<and> k t"
  by (induction s arbitrary: m) (auto split: if_splits)

lemma lazy_then_total: "k [] \<Longrightarrow> (\<And>c. p c) \<Longrightarrow> \<exists>m. lazy_then p k s = Some m"
  by (induction s) auto

section \<open>Every rule consumes a non-empty prefix\<close>

lemma url_scheme_SomeD: "url_scheme s = Some sc \<Longrightarrow> s = sc @ drop (length sc) s \<and> sc \<noteq> []"
  by (auto simp: url_scheme_def prefix_def split: if_splits)

lemma Translator_heading_span:
  "Translator_heading inp = Some m \<Longrightarrow> group0 m \<noteq> [] \<and> prefix (group0 m) inp"
  by (auto simp: Translator_heading_def greedy_then_always takeWhile_is_prefix
      split: list.splits if_splits)

lemma Translator_bullet_span:
  assumes "Translator_bullet inp = Some m"
  shows "group0 m \<noteq> [] \<and> prefix (group0 m) inp"
proof -
  from assms obtain ws where g: "greedy_then is_space bullet_tail inp = Some ws"
    and m: "m = Match (ws @ take 2 (drop (length ws) inp)) ws"
    by (auto simp: Translator_bullet_def)
  from greedy_then_SomeD [OF g] obtain t where t: "inp = ws @ t" "bullet_tail t" by blast
  then obtain c d t' where "t = c # d # t'"
    by (auto simp: bullet_tail_def split: list.splits)
  with t m show ?thesis by auto
qed

lemma Translator_change_type_span:
  assumes "Translator_change_type inp = Some m"
  shows "group0 m \<noteq> [] \<and> prefix (group0 m) inp"
proof -
  from assms obtain c w rest w' where tx: "inp = c # w # rest"
    and g: "greedy_then is_word change_type_tail rest = Some w'"
    and m: "m = Match (c # w # w' @ '']'') (w # w')"
    by (auto simp: Translator_change_type_def split: list.splits if_splits)
  from greedy_then_SomeD [OF g] obtain t where t: "rest = w' @ t" "change_type_tail t" by blast
  then obtain t' where "t = CHR '']'' # t'"
    by (auto simp: change_type_tail_def split: list.splits)
  with t tx m show ?thesis by auto
qed

lemma Translator_url_span:
  assumes "Translator_url inp = Some m"
  shows "group0 m \<noteq> [] \<and> prefix (group0 m) inp"
proof -
  from assms obtain sc c rest b where sc: "url_scheme inp = Some sc"
    and d: "drop (length sc) inp = c # rest"
    and g: "greedy_then url_char url_tail rest = Some b"
    and m: "group0 m = sc @ c # b @ take 1 (drop (length b) rest)"
    by (auto simp: Translator_url_def Let_def split: option.splits list.splits if_splits)
  from greedy_then_SomeD [OF g] obtain t where t: "rest = b @ t" "url_tail t" by blast
  then obtain x t' where "t = x # t'"
    by (auto simp: url_tail_def split: list.splits)
  with t have "rest = (b @ take 1 (drop (length b) rest)) @ t'" by simp
  with url_scheme_SomeD [OF sc] d have "inp = (sc @ c # b @ take 1 (drop (length b) rest)) @ t'"
    by (metis append.assoc append_Cons)
  with m show ?thesis by (metis prefixI append_is_Nil_conv list.distinct(1))
qed

lemma Translator_local_issue_link_span:
  assumes "Translator_local_issue_link inp = Some m"
  shows "group0 m \<noteq> [] \<and> prefix (group0 m) inp"
proof -
  from assms obtain a b d rest ds where tx: "inp = a # b # d # rest"
    and g: "greedy_then is_digit issue_tail rest = Some ds"
    and m: "m = Match (a # b # d # ds @ '')'') (d # ds)"
    by (auto simp: Translator_local_issue_link_def split: list.splits if_splits)
  from greedy_then_SomeD [OF g] obtain t where t: "rest = ds @ t" "issue_tail t" by blast
  then obtain t' where "t = CHR '')'' # t'"
    by (auto simp: issue_tail_def split: list.splits)
  with t tx m show ?thesis by auto
qed

lemma Translator_text_span:
  "Translator_text inp = Some m \<Longrightarrow> group0 m \<noteq> [] \<and> prefix (group0 m) inp"
  by (auto simp: Translator_text_def split: list.splits if_splits dest: lazy_then_SomeD)

lemma text_lookahead_Nil: "text_lookahead []"
  by (simp add: text_lookahead_def end_of_string_def)

lemma Translator_text_total: "inp \<noteq> [] \<Longrightarrow> \<exists>m. Translator_text inp = Some m"
  using lazy_then_total [of text_lookahead any_char]
  by (cases "inp") (auto simp: Translator_text_def any_char_def text_lookahead_Nil)

lemma rule_match_span:
  "rule_match key inp = Some m \<Longrightarrow> group0 m \<noteq> [] \<and> prefix (group0 m) inp"
  by (cases key)
    (simp_all add: Translator_heading_span Translator_bullet_span Translator_change_type_span
      Translator_url_span Translator_local_issue_link_span Translator_text_span)

lemma first_match_span:
  "first_match keys inp = Some (key, m) \<Longrightarrow> group0 m \<noteq> [] \<and> prefix (group0 m) inp"
  by (induction keys) (auto split: option.splits dest: rule_match_span)

lemma first_match_total: "inp \<noteq> [] \<Longrightarrow> \<exists>key m. first_match rules inp = Some (key, m)"
  using Translator_text_total [of "inp"]
  by (auto simp: rules_def split: option.splits)

lemma first_match_step:
  assumes "inp \<noteq> []"
  obtains key m rest where "first_match rules inp = Some (key, m)" "inp = group0 m @ rest"
    "group0 m \<noteq> []" "drop (length (group0 m)) inp = rest" "length rest < length inp"
proof -
  from first_match_total [OF assms] obtain key m where f: "first_match rules inp = Some (key, m)"
    by blast
  from first_match_span [OF f] obtain rest where "inp = group0 m @ rest" "group0 m \<noteq> []"
    by (auto simp: prefix_def)
  with f that show thesis by (metis append_eq_conv_conj length_append length_greater_0_conv less_add_same_cancel2)
qed

section \<open>The loop returns\<close>

text \<open>
  By induction on the length of the remaining text: both loops return, the rendering loop
  returns the callbacks' results of the recorded matches in order, and the matched spans
  are non-empty and make up the input.
\<close>

lemma loops_total:
  "\<exists>ms. (\<forall>trace. match_loop trace inp = Some (trace @ ms))
     \<and> (\<forall>r result. translate_loop r result inp =
           Some (result @ concat (map (\<lambda>km. callback r (fst km) (snd km)) ms)))
     \<and> concat (map (\<lambda>km. group0 (snd km)) ms) = inp
     \<and> [] \<notin> set (map (\<lambda>km. group0 (snd km)) ms)"
proof (induction "inp" rule: length_induct)
  case (1 inp)
  show ?case
  proof (cases "inp = []")
    case True
    have "\<forall>trace. match_loop trace inp = Some (trace @ [])"
      using True by (simp add: match_loop.simps)
    moreover have "\<forall>r result. translate_loop r result inp =
        Some (result @ concat (map (\<lambda>km. callback r (fst km) (snd km)) []))"
      using True by (simp add: translate_loop.simps)
    ultimately show ?thesis using True by (intro exI [of _ "[]"]) simp
  next
    case False
    from first_match_step [OF False] obtain key m rest where
      f: "first_match rules inp = Some (key, m)" and tx: "inp = group0 m @ rest"
      and ne: "group0 m \<noteq> []" and dr: "drop (length (group0 m)) inp = rest"
      and less: "length rest < length inp" by blast
    from 1 less obtain ms where
      ms1: "\<forall>trace. match_loop trace rest = Some (trace @ ms)" and
      ms2: "\<forall>r result. translate_loop r result rest =
              Some (result @ concat (map (\<lambda>km. callback r (fst km) (snd km)) ms))" and
      ms3: "concat (map (\<lambda>km. group0 (snd km)) ms) = rest" and
      ms4: "[] \<notin> set (map (\<lambda>km. group0 (snd km)) ms)" by blast
    have a: "\<forall>trace. match_loop trace inp = Some (trace @ (key, m) # ms)"
    proof
      fix trace
      have "match_loop trace inp = match_loop (trace @ [(key, m)]) rest"
        using False f dr by (subst match_loop.simps) simp
      then show "match_loop trace inp = Some (trace @ (key, m) # ms)"
        using ms1 by simp
    qed
    have b: "\<forall>r result. translate_loop r result inp =
        Some (result @ concat (map (\<lambda>km. callback r (fst km) (snd km)) ((key, m) # ms)))"
    proof (intro allI)
      fix r result
      have "translate_loop r result inp = translate_loop r (result @ callback r key m) rest"
        using False f dr by (subst translate_loop.simps) simp
      then show "translate_loop r result inp =
          Some (result @ concat (map (\<lambda>km. callback r (fst km) (snd km)) ((key, m) # ms)))"
        using ms2 by simp
    qed
    have c: "concat (map (\<lambda>km. group0 (snd km)) ((key, m) # ms)) = inp"
      using ms3 tx by simp
    have d: "[] \<notin> set (map (\<lambda>km. group0 (snd km)) ((key, m) # ms))"
      using ms4 ne by auto
    from a b c d show ?thesis by blast
  qed
qed

lemma first_match_rule:
  "first_match keys inp = Some (key, m) \<Longrightarrow> rule_match key inp = Some m"
  by (induction keys) (auto split: option.splits)

lemma translate_loop_total:
  "\<exists>out. \<forall>result. translate_loop r result inp = Some (result @ out)"
  using loops_total [of inp] by blast

lemma translate_loop_step:
  "first_match rules (c # cs) = Some (key, m) \<Longrightarrow>
     translate_loop r result (c # cs)
       = translate_loop r (result @ callback r key m) (drop (length (group0 m)) (c # cs))"
  by (subst translate_loop.simps) simp

section \<open>The change-type pattern\<close>

lemma takeWhile_word_bracket:
  "list_all is_word w \<Longrightarrow> takeWhile is_word (w @ CHR '']'' # rest) = w"
  by (induction w) (auto simp: is_word_def)

lemma dropWhile_word_bracket:
  "list_all is_word w \<Longrightarrow> dropWhile is_word (w @ CHR '']'' # rest) = CHR '']'' # rest"
  by (induction w) (auto simp: is_word_def)

lemma word_not_tail: "is_word c \<Longrightarrow> \<not> change_type_tail (c # cs)"
  by (auto simp: change_type_tail_def is_word_def)

lemma change_type_greedy:
  "list_all is_word w \<Longrightarrow>
     greedy_then is_word change_type_tail (w @ CHR '']'' # rest)
       = (if change_type_tail (CHR '']'' # rest) then Some w else None)"
  by (simp add: greedy_then_disjoint [of is_word change_type_tail, OF word_not_tail]
      takeWhile_word_bracket dropWhile_word_bracket)

lemma Translator_change_type_word:
  assumes "w \<noteq> []" "list_all is_word w" "rest = [] \<or> hd rest \<noteq> CHR ''(''"
  shows "Translator_change_type (''['' @ w @ '']'' @ rest) = Some (Match (''['' @ w @ '']'') w)"
proof -
  from assms obtain c w' where w: "w = c # w'" "is_word c" "list_all is_word w'"
    by (cases w) auto
  have "change_type_tail (CHR '']'' # rest)"
    using assms(3) by (cases rest) (auto simp: change_type_tail_def)
  then show ?thesis
    using w change_type_greedy [of w' rest] by (simp add: Translator_change_type_def)
qed

lemma Translator_change_type_link:
  assumes "list_all is_word w"
  shows "Translator_change_type (''['' @ w @ '']('' @ rest) = None"
proof (cases w)
  case Nil
  then show ?thesis by (simp add: Translator_change_type_def is_word_def)
next
  case (Cons c w')
  with assms have w: "is_word c" "list_all is_word w'" by auto
  have "\<not> change_type_tail (CHR '']'' # CHR ''('' # rest)"
    by (simp add: change_type_tail_def)
  then show ?thesis
    using Cons w change_type_greedy [of w' "CHR ''('' # rest"]
    by (simp add: Translator_change_type_def)
qed

section \<open>The bullet pattern\<close>

lemma space_not_bullet: "is_space c \<Longrightarrow> \<not> bullet_tail (c # cs)"
  by (auto simp: bullet_tail_def is_space_def split: list.splits)

lemma marker_not_space: "mk \<in> set ''*+-'' \<Longrightarrow> \<not> is_space mk"
  by (auto simp: is_space_def)

lemma takeWhile_space_marker:
  "list_all is_space ws \<Longrightarrow> \<not> is_space mk \<Longrightarrow> takeWhile is_space (ws @ mk # rest) = ws"
  by (induction ws) auto

lemma dropWhile_space_marker:
  "list_all is_space ws \<Longrightarrow> \<not> is_space mk \<Longrightarrow> dropWhile is_space (ws @ mk # rest) = mk # rest"
  by (induction ws) auto

lemma Translator_bullet_marker:
  assumes "list_all is_space ws" "mk \<in> set ''*+-''"
  shows "Translator_bullet (ws @ mk # CHR '' '' # rest) = Some (Match (ws @ [mk, CHR '' '']) ws)"
proof -
  have "bullet_tail (mk # CHR '' '' # rest)"
    using assms(2) by (simp add: bullet_tail_def)
  then have "greedy_then is_space bullet_tail (ws @ mk # CHR '' '' # rest) = Some ws"
    using assms marker_not_space [OF assms(2)]
    by (simp add: greedy_then_disjoint [of is_space bullet_tail, OF space_not_bullet]
        takeWhile_space_marker dropWhile_space_marker)
  then show ?thesis by (simp add: Translator_bullet_def)
qed

lemma first_match_bullet:
  assumes "list_all is_space ws" "mk \<in> set ''*+-''"
  shows "first_match rules (ws @ mk # CHR '' '' # rest)
     = Some (Bullet, Match (ws @ [mk, CHR '' '']) ws)"
proof -
  have "Translator_heading (ws @ mk # CHR '' '' # rest) = None"
    using assms by (cases ws) (auto simp: Translator_heading_def is_space_def)
  then show ?thesis
    using Translator_bullet_marker [OF assms] by (simp add: rules_def)
qed

section \<open>The url pattern\<close>

lemma Renderer_url_http:
  assumes "prefix ''http://'' u"
  shows "Renderer_url r u = u"
proof -
  from assms obtain t where "u = ''http://'' @ t" by (auto simp: prefix_def)
  then have "issue_url_match u = None"
    by (simp add: issue_url_match_def github_issue_def strip_github_def)
  then show ?thesis by (simp add: Renderer_url_def)
qed

lemma url_scheme_http: "url_scheme (''http://'' @ b) = Some ''http://''"
  by (simp add: url_scheme_def)

lemma url_scheme_https: "url_scheme (''https://'' @ b) = Some ''https://''"
  by (simp add: url_scheme_def)

lemma url_body_greedy:
  assumes "rest \<noteq> []" "list_all url_char rest" "url_last_char (last rest)"
  shows "greedy_then url_char url_tail rest = Some (butlast rest)"
proof -
  have r: "rest = butlast rest @ [last rest]" using assms(1) by simp
  have "list_all url_char (butlast rest)"
    using assms(2) by (metis append_butlast_last_id assms(1) list_all_append)
  moreover have "url_tail [last rest]" using assms(3) by (simp add: url_tail_def)
  ultimately obtain m' where g: "greedy_then url_char url_tail (butlast rest @ [last rest]) = Some m'"
    and le: "length (butlast rest) \<le> length m'"
    using greedy_then_longest [of url_char "butlast rest" url_tail "[last rest]"] by blast
  from g r have g': "greedy_then url_char url_tail rest = Some m'" by simp
  from greedy_then_SomeD [OF g'] obtain t where t: "rest = m' @ t" "url_tail t" by blast
  then have "t \<noteq> []" by (auto simp: url_tail_def)
  with t(1) le have "length m' = length (butlast rest)"
    by (metis One_nat_def Suc_pred append_Nil2 append_eq_conv_conj assms(1) le_antisym
        length_butlast length_greater_0_conv not_less_eq_eq take_all_iff)
  with t(1) have "m' = butlast rest"
    by (metis append_eq_conv_conj butlast_conv_take length_butlast)
  with g' show ?thesis by simp
qed

lemma Translator_url_body:
  assumes "sch = ''http://'' \<or> sch = ''https://''" "2 \<le> length b" "list_all url_char b"
    "url_last_char (last b)"
  shows "Translator_url (sch @ b) = Some (Match (sch @ b) (sch @ b))"
proof -
  from assms(2) obtain c rest where b: "b = c # rest" "rest \<noteq> []"
    by (cases b) (auto simp: Suc_le_eq)
  with assms have c: "url_char c" and rest: "list_all url_char rest" "url_last_char (last rest)"
    by auto
  have sc: "url_scheme (sch @ b) = Some sch"
    using assms(1) url_scheme_http url_scheme_https by auto
  have g: "greedy_then url_char url_tail rest = Some (butlast rest)"
    using url_body_greedy [OF b(2) rest] .
  have "butlast rest @ take 1 (drop (length (butlast rest)) rest) = rest"
    using b(2) by (metis append_butlast_last_id append_eq_conv_conj take_all_iff length_Cons
        list.size(3) One_nat_def order_refl)
  then show ?thesis
    using sc g c b by (simp add: Translator_url_def Let_def)
qed

section \<open>After a heading\<close>

lemma takeWhile_line:
  "newline \<notin> set line \<Longrightarrow> takeWhile not_newline (line @ newline # rest) = line"
  by (induction line) (auto simp: not_newline_def)

lemma Translator_heading_line:
  "newline \<notin> set line \<Longrightarrow>
     Translator_heading (CHR ''#'' # line @ newline # rest) = Some (Match (CHR ''#'' # line) [])"
  by (simp add: Translator_heading_def greedy_then_always takeWhile_line)

lemma first_match_heading:
  "newline \<notin> set line \<Longrightarrow>
     first_match rules (CHR ''#'' # line @ newline # rest)
       = Some (Heading, Match (CHR ''#'' # line) [])"
  by (simp add: rules_def Translator_heading_line)

lemma callback_after_newline:
  assumes "first_match rules (newline # rest) = Some (key, m)"
  shows "\<exists>x. callback r key m = newline # x"
proof -
  from first_match_rule [OF assms] have rm: "rule_match key (newline # rest) = Some m" .
  show ?thesis
  proof (cases key)
    case Heading
    with rm show ?thesis by (simp add: Translator_heading_def newline_def)
  next
    case Bullet
    with rm obtain ws where g: "greedy_then is_space bullet_tail (newline # rest) = Some ws"
      and m: "group1 m = ws"
      by (auto simp: Translator_bullet_def)
    from greedy_then_SomeD [OF g] obtain t where t: "newline # rest = ws @ t" "bullet_tail t"
      by blast
    have "ws \<noteq> []"
    proof
      assume "ws = []"
      with t have "bullet_tail (newline # rest)" by simp
      then show False by (auto simp: bullet_tail_def newline_def split: list.splits)
    qed
    with t(1) obtain ws' where "ws = newline # ws'" by (cases ws) auto
    with m Bullet show ?thesis by (simp add: Renderer_bullet_def)
  next
    case Change_type
    with rm show ?thesis
      by (auto simp: Translator_change_type_def newline_def split: list.splits if_splits)
  next
    case Url
    with rm show ?thesis
      by (simp add: Translator_url_def url_scheme_def newline_def)
  next
    case Local_issue_link
    with rm show ?thesis
      by (auto simp: Translator_local_issue_link_def newline_def split: list.splits if_splits)
  next
    case Text
    with rm show ?thesis
      by (auto simp: Translator_text_def Renderer_text_def split: if_splits)
  qed
qed

lemma translate_after_heading:
  assumes "newline \<notin> set line"
  shows "\<exists>out. translate r (CHR ''#'' # line @ newline # rest)
           = Some (Renderer_heading r (CHR ''#'' # line) @ newline # out)"
proof -
  let ?h = "Renderer_heading r (CHR ''#'' # line)"
  have 1: "translate r (CHR ''#'' # line @ newline # rest) = translate_loop r ?h (newline # rest)"
    using translate_loop_step [OF first_match_heading [OF assms], of r "[]" rest]
    by (simp add: translate_def)
  from first_match_total [of "newline # rest"] obtain key m
    where f: "first_match rules (newline # rest) = Some (key, m)" by auto
  from callback_after_newline [OF f] obtain x where x: "callback r key m = newline # x" by blast
  from translate_loop_total [of r "drop (length (group0 m)) (newline # rest)"] obtain out
    where out: "\<forall>result. translate_loop r result (drop (length (group0 m)) (newline # rest))
                  = Some (result @ out)" by blast
  have "translate_loop r ?h (newline # rest) = Some ((?h @ newline # x) @ out)"
    using translate_loop_step [OF f, of r ?h] x out by simp
  with 1 show ?thesis by simp
qed

section \<open>The pattern of issue URLs\<close>

lemma digit_not_end: "is_digit c \<Longrightarrow> \<not> end_of_string (c # cs)"
  by (auto simp: end_of_string_def is_digit_def newline_def)

lemma takeWhile_all: "list_all p xs \<Longrightarrow> takeWhile p xs = xs"
  by (induction xs) auto

lemma dropWhile_all: "list_all p xs \<Longrightarrow> dropWhile p xs = []"
  by (induction xs) auto

lemma issues_tail_digits:
  assumes "n \<noteq> []" "list_all is_digit n"
  shows "issues_tail (''/issues/'' @ n) = Some n"
proof -
  from assms obtain d t where n: "n = d # t" "is_digit d" "list_all is_digit t"
    by (cases n) auto
  have "greedy_then is_digit end_of_string t = Some t"
    using n(3)
    by (simp add: greedy_then_disjoint [of is_digit end_of_string, OF digit_not_end]
        takeWhile_all dropWhile_all end_of_string_def)
  with n show ?thesis by (simp add: issues_tail_def)
qed

lemma issues_tail_SomeD:
  assumes "issues_tail s = Some n"
  shows "n \<noteq> [] \<and> list_all is_digit n \<and> (s = ''/issues/'' @ n \<or> s = ''/issues/'' @ n @ [newline])"
proof -
  from assms obtain d t m where p: "prefix ''/issues/'' s" and dr: "drop 8 s = d # t"
    and d: "is_digit d" and g: "greedy_then is_digit end_of_string t = Some m" and n: "n = d # m"
    by (auto simp: issues_tail_def split: if_splits list.splits)
  from greedy_then_SomeD [OF g] obtain e where e: "t = m @ e" "list_all is_digit m" "end_of_string e"
    by blast
  from p dr have "s = ''/issues/'' @ d # t" by (auto simp: prefix_def)
  with e n d show ?thesis by (auto simp: end_of_string_def)
qed

lemma rev_digits_slash:
  "list_all is_digit n \<Longrightarrow> takeWhile is_digit (rev n @ CHR ''/'' # xs) = rev n"
  by (induction n rule: rev_induct) (auto simp: is_digit_def)

lemma issue_split_unique:
  assumes "a @ ''/issues/'' @ n = b @ ''/issues/'' @ n'" "list_all is_digit n" "list_all is_digit n'"
  shows "a = b \<and> n = n'"
proof -
  from assms(1) have "rev (a @ ''/issues/'' @ n) = rev (b @ ''/issues/'' @ n')" by simp
  then have "rev n @ CHR ''/'' # (''seussi/'' @ rev a) = rev n' @ CHR ''/'' # (''seussi/'' @ rev b)"
    by simp
  then have "takeWhile is_digit (rev n @ CHR ''/'' # (''seussi/'' @ rev a))
      = takeWhile is_digit (rev n' @ CHR ''/'' # (''seussi/'' @ rev b))" by (rule arg_cong)
  then have "rev n = rev n'"
    using assms(2,3) by (simp only: rev_digits_slash)
  then have "n = n'" by simp
  with assms(1) show ?thesis by simp
qed

lemma repo_greedy:
  assumes "list_all not_newline repo" "n \<noteq> []" "list_all is_digit n"
  shows "greedy_then not_newline (\<lambda>s. issues_tail s \<noteq> None) (repo @ ''/issues/'' @ n) = Some repo"
proof -
  have "issues_tail (''/issues/'' @ n) \<noteq> None"
    using issues_tail_digits [OF assms(2,3)] by simp
  with assms(1) obtain m' where
    g: "greedy_then not_newline (\<lambda>s. issues_tail s \<noteq> None) (repo @ ''/issues/'' @ n) = Some m'"
    using greedy_then_longest [of not_newline repo "\<lambda>s. issues_tail s \<noteq> None" "''/issues/'' @ n"]
    by blast
  from greedy_then_SomeD [OF g] obtain t n' where t: "repo @ ''/issues/'' @ n = m' @ t"
    and n': "issues_tail t = Some n'" by auto
  from issues_tail_SomeD [OF n'] have d: "list_all is_digit n'"
    and c: "t = ''/issues/'' @ n' \<or> t = ''/issues/'' @ n' @ [newline]" by auto
  have "last (repo @ ''/issues/'' @ n) = last n" using assms(2) by simp
  moreover have "is_digit (last n)" using assms(2,3) by (simp add: list_all_iff)
  ultimately have "last (repo @ ''/issues/'' @ n) \<noteq> newline"
    by (auto simp: is_digit_def newline_def)
  with t c have "t = ''/issues/'' @ n'" by auto
  with t have "repo @ ''/issues/'' @ n = m' @ ''/issues/'' @ n'" by simp
  from issue_split_unique [OF this assms(3) d] g show ?thesis by simp
qed

lemma Renderer_url_issue:
  assumes "list_all not_newline repo" "n \<noteq> []" "list_all is_digit n"
  shows "Renderer_url r (''https://github.com/'' @ repo @ ''/issues/'' @ n)
     = ''['' @ (if repo = local_repo r then ''#'' @ n else repo @ ''#'' @ n)
         @ ''](//github.com/'' @ repo @ ''/issues/'' @ n @ '')''"
proof -
  let ?u = "''//github.com/'' @ repo @ ''/issues/'' @ n"
  have s: "strip_github ?u = Some (repo @ ''/issues/'' @ n)"
    by (simp add: strip_github_def not_newline_def newline_def)
  have "github_issue ?u = Some (?u, repo, n)"
    using s repo_greedy [OF assms] issues_tail_digits [OF assms(2,3)]
    by (simp add: github_issue_def)
  then have "issue_url_match (''https:'' @ ?u) = Some (?u, repo, n)"
    by (simp add: issue_url_match_def)
  then show ?thesis by (simp add: Renderer_url_def)
qed

lemma first_match_url:
  assumes "Translator_url (CHR ''h'' # s) = Some m"
  shows "first_match rules (CHR ''h'' # s) = Some (Url, m)"
proof -
  have "Translator_heading (CHR ''h'' # s) = None" by (simp add: Translator_heading_def)
  moreover have "Translator_bullet (CHR ''h'' # s) = None"
    by (simp add: Translator_bullet_def bullet_tail_def is_space_def split: list.splits)
  moreover have "Translator_change_type (CHR ''h'' # s) = None"
    by (simp add: Translator_change_type_def split: list.splits)
  ultimately show ?thesis using assms by (simp add: rules_def)
qed

lemma translate_issue_url:
  assumes "list_all url_char repo" "n \<noteq> []" "list_all is_digit n"
  shows "translate r (''https://github.com/'' @ repo @ ''/issues/'' @ n)
     = Some (''['' @ (if repo = local_repo r then ''#'' @ n else repo @ ''#'' @ n)
         @ ''](//github.com/'' @ repo @ ''/issues/'' @ n @ '')'')"
proof -
  let ?b = "''github.com/'' @ repo @ ''/issues/'' @ n"
  let ?u = "''https://'' @ ?b"
  have nn: "list_all not_newline repo"
    using assms(1) by (auto simp: list_all_iff url_char_def is_space_def not_newline_def newline_def)
  have dig: "\<And>c. is_digit c \<Longrightarrow> url_char c \<and> url_last_char c"
    by (auto simp: is_digit_def url_char_def url_last_char_def is_space_def)
  have b1: "list_all url_char ?b"
    using assms(1,3) dig by (auto simp: list_all_iff url_char_def is_space_def)
  have "last ?b = last n" using assms(2) by simp
  moreover have "is_digit (last n)" using assms(2,3) by (simp add: list_all_iff)
  ultimately have b2: "url_last_char (last ?b)" using dig by simp
  have "Translator_url ?u = Some (Match ?u ?u)"
    using Translator_url_body [of "''https://''" ?b, OF _ _ b1 b2] by simp
  then have f: "first_match rules (CHR ''h'' # ''ttps://'' @ ?b) = Some (Url, Match ?u ?u)"
    using first_match_url [of "''ttps://'' @ ?b" "Match ?u ?u"] by simp
  have "translate_loop r [] (CHR ''h'' # ''ttps://'' @ ?b) = translate_loop r (Renderer_url r ?u) []"
    using translate_loop_step [OF f, of r "[]"] by simp
  then have "translate r ?u = Some (Renderer_url r ?u)"
    by (simp add: translate_def translate_loop.simps)
  then show ?thesis using Renderer_url_issue [OF nn assms(2,3), of r] by simp
qed

section \<open>The pattern of remote URLs\<close>

lemma has_remote_shape_iff: "has_remote_shape url \<longleftrightarrow> (\<exists>repo. remote_shape url repo)"
proof
  assume "has_remote_shape url"
  then consider rest where "url = ''git@github.com:'' @ rest" "suffix ''.git'' rest"
    | rest where "url = ''https://github.com/'' @ rest" "suffix ''.git'' rest"
    unfolding has_remote_shape_def prefix_def by auto
  then show "\<exists>repo. remote_shape url repo"
  proof cases
    case 1
    then obtain repo where "rest = repo @ ''.git''" by (auto simp: suffix_def)
    with 1(1) have "remote_shape url repo" by (simp add: remote_shape_def)
    then show ?thesis ..
  next
    case 2
    then obtain repo where "rest = repo @ ''.git''" by (auto simp: suffix_def)
    with 2(1) have "remote_shape url repo" by (simp add: remote_shape_def)
    then show ?thesis ..
  qed
next
  assume "\<exists>repo. remote_shape url repo"
  then obtain repo where "remote_shape url repo" ..
  then consider "url = ''git@github.com:'' @ (repo @ ''.git'')"
    | "url = ''https://github.com/'' @ (repo @ ''.git'')"
    unfolding remote_shape_def by auto
  then show "has_remote_shape url"
  proof cases
    case 1
    have "suffix ''.git'' (repo @ ''.git'')" by (rule suffixI) simp
    then show ?thesis unfolding 1 has_remote_shape_def by simp
  next
    case 2
    have "suffix ''.git'' (repo @ ''.git'')" by (rule suffixI) simp
    then show ?thesis unfolding 2 has_remote_shape_def by simp
  qed
qed

lemma git_suffix_iff: "git_suffix t \<longleftrightarrow> t = ''.git'' \<or> t = ''.git'' @ [newline]"
  by (auto simp: git_suffix_def end_of_string_def prefix_def)

lemma git_greedy:
  assumes "newline \<notin> set repo" "t = ''.git'' \<or> t = ''.git'' @ [newline]"
  shows "greedy_then not_newline git_suffix (repo @ t) = Some repo"
proof -
  have nn: "list_all not_newline repo"
    using assms(1) by (auto simp: list_all_iff not_newline_def)
  have "git_suffix t" using assms(2) by (simp add: git_suffix_iff)
  with nn obtain m' where g: "greedy_then not_newline git_suffix (repo @ t) = Some m'"
    using greedy_then_longest [of not_newline repo git_suffix t] by blast
  from greedy_then_SomeD [OF g] obtain t' where t': "repo @ t = m' @ t'" "git_suffix t'"
    by blast
  from t'(2) have c: "t' = ''.git'' \<or> t' = ''.git'' @ [newline]" by (simp add: git_suffix_iff)
  have "t = t'"
  proof (rule ccontr)
    assume "t \<noteq> t'"
    with assms(2) c have "last (repo @ t) \<noteq> last (m' @ t')"
      by (auto simp: newline_def)
    with t'(1) show False by simp
  qed
  with t'(1) g show ?thesis by simp
qed

lemma remote_prefix_SomeD:
  "remote_prefix url = Some rest \<Longrightarrow>
     url = ''git@github.com:'' @ rest \<or> url = ''https://github.com/'' @ rest"
  by (auto simp: remote_prefix_def prefix_def split: if_splits)

lemma remote_prefix_ssh: "remote_prefix (''git@github.com:'' @ rest) = Some rest"
  by (simp add: remote_prefix_def)

lemma remote_prefix_https: "remote_prefix (''https://github.com/'' @ rest) = Some rest"
  by (simp add: remote_prefix_def)

lemma find_local_repo_shape:
  assumes "newline \<notin> set repo" "t = ''.git'' \<or> t = ''.git'' @ [newline]"
    "remote_prefix url = Some (repo @ t)"
  shows "find_local_repo url = Inr repo"
  using git_greedy [OF assms(1,2)] assms(3) by (simp add: find_local_repo_def)

lemma find_local_repo_accepts:
  assumes "accepted_remote url repo"
  shows "find_local_repo url = Inr repo"
proof -
  from assms have nl: "newline \<notin> set repo"
    and c: "remote_shape url repo \<or> (\<exists>u. url = u @ [newline] \<and> remote_shape u repo)"
    by (simp_all add: accepted_remote_def)
  from c show ?thesis
  proof
    assume "remote_shape url repo"
    then consider "url = ''git@github.com:'' @ (repo @ ''.git'')"
      | "url = ''https://github.com/'' @ (repo @ ''.git'')"
      unfolding remote_shape_def by blast
    then show ?thesis
    proof cases
      case 1
      show ?thesis
        by (rule find_local_repo_shape [OF nl, of "''.git''"]) (simp, simp only: 1 remote_prefix_ssh)
    next
      case 2
      show ?thesis
        by (rule find_local_repo_shape [OF nl, of "''.git''"]) (simp, simp only: 2 remote_prefix_https)
    qed
  next
    assume "\<exists>u. url = u @ [newline] \<and> remote_shape u repo"
    then consider "url = ''git@github.com:'' @ (repo @ ''.git'' @ [newline])"
      | "url = ''https://github.com/'' @ (repo @ ''.git'' @ [newline])"
      unfolding remote_shape_def by force
    then show ?thesis
    proof cases
      case 1
      show ?thesis
        by (rule find_local_repo_shape [OF nl, of "''.git'' @ [newline]"])
          (simp, simp only: 1 remote_prefix_ssh)
    next
      case 2
      show ?thesis
        by (rule find_local_repo_shape [OF nl, of "''.git'' @ [newline]"])
          (simp, simp only: 2 remote_prefix_https)
    qed
  qed
qed

lemma find_local_repo_InrD:
  assumes "find_local_repo url = Inr repo"
  shows "accepted_remote url repo"
proof -
  from assms obtain rest where p: "remote_prefix url = Some rest"
    and g: "greedy_then not_newline git_suffix rest = Some repo"
    by (auto simp: find_local_repo_def split: option.splits)
  from greedy_then_SomeD [OF g] obtain t where t: "rest = repo @ t" "list_all not_newline repo"
    "git_suffix t" by blast
  from t(2) have "newline \<notin> set repo" by (auto simp: list_all_iff not_newline_def)
  moreover from t(3) have "t = ''.git'' \<or> t = ''.git'' @ [newline]" by (simp add: git_suffix_iff)
  ultimately show ?thesis
    using remote_prefix_SomeD [OF p] t(1) by (auto simp: accepted_remote_def remote_shape_def)
qed

lemma find_local_repo_InlD:
  "find_local_repo url = Inl e \<Longrightarrow>
     e = LookupError (lookup_message url)"
  by (auto simp: find_local_repo_def split: option.splits)

lemma find_local_repo_accepted:
  "(find_local_repo url = Inr repo \<longleftrightarrow> accepted_remote url repo)
   \<and> (find_local_repo url = Inl e \<longleftrightarrow>
        (\<forall>repo'. \<not> accepted_remote url repo')
        \<and> e = LookupError (lookup_message url))"
proof -
  have 1: "find_local_repo url = Inr repo \<longleftrightarrow> accepted_remote url repo"
    using find_local_repo_accepts find_local_repo_InrD by blast
  have 2: "find_local_repo url = Inl e \<longleftrightarrow>
        (\<forall>repo'. \<not> accepted_remote url repo')
        \<and> e = LookupError (lookup_message url)"
  proof
    assume l: "find_local_repo url = Inl e"
    then have "\<forall>repo'. \<not> accepted_remote url repo'"
      using find_local_repo_accepts by fastforce
    with find_local_repo_InlD [OF l] show "(\<forall>repo'. \<not> accepted_remote url repo')
        \<and> e = LookupError (lookup_message url)"
      by simp
  next
    assume a: "(\<forall>repo'. \<not> accepted_remote url repo')
        \<and> e = LookupError (lookup_message url)"
    show "find_local_repo url = Inl e"
    proof (cases "find_local_repo url")
      case (Inl e')
      with find_local_repo_InlD [OF Inl] a show ?thesis by simp
    next
      case (Inr repo')
      with find_local_repo_InrD [OF Inr] a show ?thesis by simp
    qed
  qed
  from 1 2 show ?thesis by blast
qed

lemma remote_shape_repo:
  assumes "remote_shape url repo" "newline \<notin> set url"
  shows "newline \<notin> set repo"
proof -
  from assms(1) consider "url = ''git@github.com:'' @ (repo @ ''.git'')"
    | "url = ''https://github.com/'' @ (repo @ ''.git'')"
    unfolding remote_shape_def by auto
  then have "set repo \<subseteq> set url"
    by cases (simp_all only: set_append, auto)
  with assms(2) show ?thesis by auto
qed

lemma remote_shape_no_line_feed: "\<not> remote_shape (u @ [newline]) repo"
proof
  assume "remote_shape (u @ [newline]) repo"
  then consider "u @ [newline] = ''git@github.com:'' @ (repo @ ''.git'')"
    | "u @ [newline] = ''https://github.com/'' @ (repo @ ''.git'')"
    unfolding remote_shape_def by auto
  then show False
  proof cases
    case 1
    then have "last (u @ [newline]) = last (''git@github.com:'' @ (repo @ ''.git''))"
      by (rule arg_cong)
    then show False by (simp add: newline_def)
  next
    case 2
    then have "last (u @ [newline]) = last (''https://github.com/'' @ (repo @ ''.git''))"
      by (rule arg_cong)
    then show False by (simp add: newline_def)
  qed
qed

lemma find_local_repo_of_shape:
  assumes "newline \<notin> set url" "remote_shape url repo"
  shows "find_local_repo url = Inr repo" "find_local_repo (url @ [newline]) = Inr repo"
proof -
  have r: "newline \<notin> set repo" using remote_shape_repo [OF assms(2,1)] .
  have "accepted_remote url repo"
    using r assms(2) by (simp add: accepted_remote_def)
  then show "find_local_repo url = Inr repo" by (rule find_local_repo_accepts)
  have "accepted_remote (url @ [newline]) repo"
    using r assms(2) by (simp add: accepted_remote_def)
  then show "find_local_repo (url @ [newline]) = Inr repo" by (rule find_local_repo_accepts)
qed

lemma find_local_repo_no_shape:
  assumes "newline \<notin> set url" "\<not> has_remote_shape url"
  shows "find_local_repo url = Inl (LookupError (lookup_message url))"
    "find_local_repo (url @ [newline]) = Inl (LookupError (lookup_message (url @ [newline])))"
proof -
  have none: "\<And>repo. \<not> remote_shape url repo"
    using assms(2) by (simp add: has_remote_shape_iff)
  show "find_local_repo url = Inl (LookupError (lookup_message url))"
  proof (cases "find_local_repo url")
    case (Inl e)
    with find_local_repo_InlD [OF Inl] show ?thesis by simp
  next
    case (Inr repo)
    from find_local_repo_InrD [OF Inr] have "remote_shape url repo
        \<or> (\<exists>u. url = u @ [newline] \<and> remote_shape u repo)"
      by (simp add: accepted_remote_def)
    with none assms(1) show ?thesis by auto
  qed
  show "find_local_repo (url @ [newline]) = Inl (LookupError (lookup_message (url @ [newline])))"
  proof (cases "find_local_repo (url @ [newline])")
    case (Inl e)
    with find_local_repo_InlD [OF Inl] show ?thesis by simp
  next
    case (Inr repo)
    from find_local_repo_InrD [OF Inr] have "remote_shape (url @ [newline]) repo
        \<or> (\<exists>u. url @ [newline] = u @ [newline] \<and> remote_shape u repo)"
      by (simp add: accepted_remote_def)
    with none remote_shape_no_line_feed show ?thesis by auto
  qed
qed

section \<open>Text without trigger constructs\<close>














section \<open>The end-to-end scenario\<close>

text \<open>
  C1 (end-to-end translation), as the code computes it. With the product token
  \<^verbatim>\<open>{{widgets}}\<close> and the local repository \<^verbatim>\<open>org/repo\<close>, the changelog section
  of a heading \<^verbatim>\<open>## 1.2.0\<close> and the line \<^verbatim>\<open>- [added] Support for X (#12)\<close> is
  rendered with an empty line between the heading and the list: the heading pattern stops
  before the line feed, the rendered heading ends with a line feed of its own, and the
  original one is kept as the spacing of the bullet.
\<close>

theorem translate_end_to_end:
  "translate \<lparr>local_repo = ''org/repo'', product = Some ''{{widgets}}''\<rparr>
     ''## 1.2.0\<newline>- [added] Support for X (#12)\<newline>''
   = Some ''### {{widgets}}\<newline>\<newline>* {{feature}} Support for X ([#12](//github.com/org/repo/issues/12))\<newline>''"
  by code_simp

text \<open>The output without the empty line is not what \<open>translate\<close> returns.\<close>

theorem translate_end_to_end_counterexample:
  "translate \<lparr>local_repo = ''org/repo'', product = Some ''{{widgets}}''\<rparr>
     ''## 1.2.0\<newline>- [added] Support for X (#12)\<newline>''
   \<noteq> Some ''### {{widgets}}\<newline>* {{feature}} Support for X ([#12](//github.com/org/repo/issues/12))\<newline>''"
  by code_simp

section \<open>Progress, termination and coverage\<close>

text \<open>
  C2 (progress and termination). For every input, \<open>translate\<close> returns. The matches
  of its iterations are non-empty spans whose concatenation is the input: the sum of their
  lengths is the length of the input, and no character is skipped or consumed twice. On
  every non-empty remaining text the fallback rule \<open>Translator_text\<close> matches a non-empty
  prefix, so the first rule that matches consumes a non-empty prefix and the remaining
  text gets shorter.
\<close>

theorem translate_progress_and_coverage:
  "\<exists>out ms. translate r inp = Some out \<and> matches inp = Some ms
     \<and> out = concat (map (\<lambda>km. callback r (fst km) (snd km)) ms)
     \<and> concat (map (\<lambda>km. group0 (snd km)) ms) = inp
     \<and> sum_list (map (\<lambda>km. length (group0 (snd km))) ms) = length inp
     \<and> [] \<notin> set (map (\<lambda>km. group0 (snd km)) ms)
     \<and> (inp \<noteq> [] \<longrightarrow>
          (\<exists>m. Translator_text inp = Some m \<and> group0 m \<noteq> [] \<and> prefix (group0 m) inp)
          \<and> (\<exists>key m. first_match rules inp = Some (key, m) \<and> group0 m \<noteq> []
                \<and> prefix (group0 m) inp
                \<and> length (drop (length (group0 m)) inp) < length inp))"
proof -
  from loops_total [of inp] obtain ms where
    a: "\<forall>trace. match_loop trace inp = Some (trace @ ms)" and
    b: "\<forall>r result. translate_loop r result inp =
          Some (result @ concat (map (\<lambda>km. callback r (fst km) (snd km)) ms))" and
    c: "concat (map (\<lambda>km. group0 (snd km)) ms) = inp" and
    d: "[] \<notin> set (map (\<lambda>km. group0 (snd km)) ms)" by blast
  have t: "translate r inp = Some (concat (map (\<lambda>km. callback r (fst km) (snd km)) ms))"
    using b by (simp add: translate_def)
  have m: "matches inp = Some ms"
    using a by (simp add: matches_def)
  have "length (concat (map (\<lambda>km. group0 (snd km)) ms)) = length inp"
    using c by simp
  then have s: "sum_list (map (\<lambda>km. length (group0 (snd km))) ms) = length inp"
    by (simp add: length_concat comp_def)
  have p: "inp \<noteq> [] \<longrightarrow>
          (\<exists>m. Translator_text inp = Some m \<and> group0 m \<noteq> [] \<and> prefix (group0 m) inp)
          \<and> (\<exists>key m. first_match rules inp = Some (key, m) \<and> group0 m \<noteq> []
                \<and> prefix (group0 m) inp
                \<and> length (drop (length (group0 m)) inp) < length inp)"
  proof
    assume ne: "inp \<noteq> []"
    from Translator_text_total [OF ne] obtain m where "Translator_text inp = Some m" by blast
    then have 1: "\<exists>m. Translator_text inp = Some m \<and> group0 m \<noteq> [] \<and> prefix (group0 m) inp"
      using Translator_text_span by blast
    from first_match_step [OF ne] obtain key m rest where
      "first_match rules inp = Some (key, m)" "inp = group0 m @ rest" "group0 m \<noteq> []"
      "drop (length (group0 m)) inp = rest" "length rest < length inp" by blast
    then have 2: "\<exists>key m. first_match rules inp = Some (key, m) \<and> group0 m \<noteq> []
                \<and> prefix (group0 m) inp
                \<and> length (drop (length (group0 m)) inp) < length inp"
      by (metis prefixI)
    from 1 2 show "(\<exists>m. Translator_text inp = Some m \<and> group0 m \<noteq> [] \<and> prefix (group0 m) inp)
          \<and> (\<exists>key m. first_match rules inp = Some (key, m) \<and> group0 m \<noteq> []
                \<and> prefix (group0 m) inp
                \<and> length (drop (length (group0 m)) inp) < length inp)" by blast
  qed
  from t m c s d p show ?thesis by blast
qed

text \<open>The statement at the input \<^verbatim>\<open>a (#7)\<close>, with its hypothesis discharged.\<close>

theorem translate_progress_and_coverage_witness:
  "\<exists>out ms. translate \<lparr>local_repo = ''org/repo'', product = None\<rparr> ''a (#7)'' = Some out
     \<and> matches ''a (#7)'' = Some ms
     \<and> out = concat (map (\<lambda>km. callback \<lparr>local_repo = ''org/repo'', product = None\<rparr> (fst km) (snd km)) ms)
     \<and> concat (map (\<lambda>km. group0 (snd km)) ms) = ''a (#7)''
     \<and> sum_list (map (\<lambda>km. length (group0 (snd km))) ms) = length ''a (#7)''
     \<and> [] \<notin> set (map (\<lambda>km. group0 (snd km)) ms)
     \<and> (\<exists>m. Translator_text ''a (#7)'' = Some m \<and> group0 m \<noteq> [] \<and> prefix (group0 m) ''a (#7)'')
     \<and> (\<exists>key m. first_match rules ''a (#7)'' = Some (key, m) \<and> group0 m \<noteq> []
                \<and> prefix (group0 m) ''a (#7)''
                \<and> length (drop (length (group0 m)) ''a (#7)'') < length ''a (#7)'')"
proof -
  have ne: "''a (#7)'' \<noteq> []" by simp
  from translate_progress_and_coverage [of "\<lparr>local_repo = ''org/repo'', product = None\<rparr>" "''a (#7)''"]
  show ?thesis using ne by blast
qed

section \<open>Passthrough\<close>




section \<open>The rendering of headings\<close>

text \<open>
  C4 (heading rendering policy), as the code has it. Whatever the raw heading line is: a
  Renderer configured with the sentinel \<open>NO_HEADING\<close> renders it as the empty string;
  one configured with a product (a non-empty string other than the sentinel) renders it as
  \<^verbatim>\<open>###\<close>, a space, the configured string as it stands and a line feed, so the
  braces of \<^verbatim>\<open>### {{widgets}}\<close> are those of the configured \<^verbatim>\<open>{{widgets}}\<close>; one
  configured with no product returns the raw heading line.
\<close>

theorem Renderer_heading_policy:
  "Renderer_heading \<lparr>local_repo = repo, product = Some NO_HEADING\<rparr> heading = []
   \<and> (token \<noteq> [] \<and> token \<noteq> NO_HEADING \<longrightarrow>
        Renderer_heading \<lparr>local_repo = repo, product = Some token\<rparr> heading
          = ''### '' @ token @ [newline])
   \<and> Renderer_heading \<lparr>local_repo = repo, product = None\<rparr> heading = heading"
  by (simp add: Renderer_heading_def NO_HEADING_def)

theorem Renderer_heading_policy_witness:
  "Renderer_heading \<lparr>local_repo = ''org/repo'', product = Some NO_HEADING\<rparr> ''## 1.2.0'' = []
   \<and> Renderer_heading \<lparr>local_repo = ''org/repo'', product = Some ''{{widgets}}''\<rparr> ''## 1.2.0''
        = ''### {{widgets}}\<newline>''
   \<and> Renderer_heading \<lparr>local_repo = ''org/repo'', product = None\<rparr> ''## 1.2.0'' = ''## 1.2.0''"
  using Renderer_heading_policy [of "''org/repo''" "''## 1.2.0''" "''{{widgets}}''"]
  by (simp add: NO_HEADING_def newline_def)

text \<open>
  \<open>Renderer_heading\<close> adds no braces: with the product \<^verbatim>\<open>InstanceID\<close>, which the table
  \<^verbatim>\<open>PRODUCTS\<close> configures for \<^verbatim>\<open>Firebase/InstanceID/CHANGELOG.md\<close>, the heading is
  \<^verbatim>\<open>### InstanceID\<close> and a line feed, which is not \<^verbatim>\<open>### {{InstanceID}}\<close> and a line
  feed and does not begin with \<^verbatim>\<open>### {{\<close> at all.
\<close>

theorem Renderer_heading_policy_counterexample:
  "Renderer_heading \<lparr>local_repo = ''org/repo'', product = Some ''InstanceID''\<rparr> ''## 1.2.0''
     = ''### InstanceID\<newline>''
   \<and> Renderer_heading \<lparr>local_repo = ''org/repo'', product = Some ''InstanceID''\<rparr> ''## 1.2.0''
     \<noteq> ''### {{InstanceID}}\<newline>''
   \<and> \<not> prefix ''### {{''
        (Renderer_heading \<lparr>local_repo = ''org/repo'', product = Some ''InstanceID''\<rparr> ''## 1.2.0'')"
  by (simp add: Renderer_heading_def NO_HEADING_def newline_def)

section \<open>Issue links, local and foreign\<close>

text \<open>
  C5 (issue-link rendering, local versus foreign). The claim's last part fails: a URL that
  is not on the tracker's host is rewritten too, since the dot of \<^verbatim>\<open>github.com\<close> in
  the pattern of \<open>Renderer_url\<close> is not escaped (the pattern of \<open>find_local_repo\<close>
  escapes it) and matches any character. With the local repository \<^verbatim>\<open>org/repo\<close>, the
  URL \<^verbatim>\<open>https://github-com/org/repo/issues/42\<close> is translated to
  \<^verbatim>\<open>[#42](//github-com/org/repo/issues/42)\<close> instead of being passed through. The
  first two parts hold (\<open>translate_issue_url\<close>): the local URL gives
  \<^verbatim>\<open>[#42](//github.com/org/repo/issues/42)\<close> and the foreign one
  \<^verbatim>\<open>[other/repo#42](//github.com/other/repo/issues/42)\<close>.
\<close>

theorem issue_url_other_host_rewritten:
  "translate \<lparr>local_repo = ''org/repo'', product = p\<rparr> ''https://github-com/org/repo/issues/42''
     = Some ''[#42](//github-com/org/repo/issues/42)''
   \<and> Renderer_url \<lparr>local_repo = ''org/repo'', product = p\<rparr> ''https://github-com/org/repo/issues/42''
     \<noteq> ''https://github-com/org/repo/issues/42''
   \<and> translate \<lparr>local_repo = ''org/repo'', product = p\<rparr> ''https://github.com/org/repo/issues/42''
     = Some ''[#42](//github.com/org/repo/issues/42)''
   \<and> translate \<lparr>local_repo = ''org/repo'', product = p\<rparr> ''https://github.com/other/repo/issues/42''
     = Some ''[other/repo#42](//github.com/other/repo/issues/42)''"
proof -
  have 1: "translate \<lparr>local_repo = ''org/repo'', product = p\<rparr> ''https://github-com/org/repo/issues/42''
     = Some ''[#42](//github-com/org/repo/issues/42)''" by code_simp
  have 2: "Renderer_url \<lparr>local_repo = ''org/repo'', product = p\<rparr> ''https://github-com/org/repo/issues/42''
     \<noteq> ''https://github-com/org/repo/issues/42''" by code_simp
  have 3: "translate \<lparr>local_repo = ''org/repo'', product = p\<rparr> ''https://github.com/org/repo/issues/42''
     = Some ''[#42](//github.com/org/repo/issues/42)''" by code_simp
  have 4: "translate \<lparr>local_repo = ''org/repo'', product = p\<rparr> ''https://github.com/other/repo/issues/42''
     = Some ''[other/repo#42](//github.com/other/repo/issues/42)''" by code_simp
  from 1 2 3 4 show ?thesis by blast
qed

section \<open>Change-type tags\<close>

text \<open>
  C6 (tag macro rendering). \<^verbatim>\<open>[feature]\<close> is translated to \<^verbatim>\<open>{{feature}}\<close>: a tag
  word other than \<^verbatim>\<open>added\<close> is wrapped as it is. \<^verbatim>\<open>[added]\<close> is translated to
  \<^verbatim>\<open>{{feature}}\<close>, by the synonym table. A bracketed word is matched as a tag when no
  opening parenthesis follows it, and is not when one follows (the negative lookahead):
  \<^verbatim>\<open>[fixed](link)\<close> is not a tag, the fallback rule matches \<^verbatim>\<open>[fixed]\<close> and then
  \<^verbatim>\<open>(link)\<close>, and the output is the input.
\<close>

theorem change_type_tags:
  "translate r ''[feature]'' = Some ''{{feature}}''
   \<and> translate r ''[added]'' = Some ''{{feature}}''
   \<and> Renderer_change_type r ''added'' = ''{{feature}}''
   \<and> (tag \<noteq> ''added'' \<longrightarrow> Renderer_change_type r tag = ''{{'' @ tag @ ''}}'')
   \<and> (w \<noteq> [] \<and> list_all is_word w \<and> (rest = [] \<or> hd rest \<noteq> CHR ''('') \<longrightarrow>
        Translator_change_type (''['' @ w @ '']'' @ rest) = Some (Match (''['' @ w @ '']'') w))
   \<and> (list_all is_word w \<longrightarrow> Translator_change_type (''['' @ w @ '']('' @ rest) = None)
   \<and> Translator_change_type ''[fixed](link)'' = None
   \<and> matches ''[fixed](link)'' = Some [(Text, Match ''[fixed]'' []), (Text, Match ''(link)'' [])]
   \<and> translate r ''[fixed](link)'' = Some ''[fixed](link)''"
proof -
  have 1: "translate r ''[feature]'' = Some ''{{feature}}''" by code_simp
  have 2: "translate r ''[added]'' = Some ''{{feature}}''" by code_simp
  have 3: "Renderer_change_type r ''added'' = ''{{feature}}''"
    by (simp add: Renderer_change_type_def CHANGE_TYPE_MAPPING_def)
  have 4: "tag \<noteq> ''added'' \<longrightarrow> Renderer_change_type r tag = ''{{'' @ tag @ ''}}''"
    by (simp add: Renderer_change_type_def CHANGE_TYPE_MAPPING_def)
  have 5: "w \<noteq> [] \<and> list_all is_word w \<and> (rest = [] \<or> hd rest \<noteq> CHR ''('') \<longrightarrow>
        Translator_change_type (''['' @ w @ '']'' @ rest) = Some (Match (''['' @ w @ '']'') w)"
    using Translator_change_type_word by blast
  have 6: "list_all is_word w \<longrightarrow> Translator_change_type (''['' @ w @ '']('' @ rest) = None"
    using Translator_change_type_link by blast
  have 7: "Translator_change_type ''[fixed](link)'' = None" by code_simp
  have 8: "matches ''[fixed](link)'' = Some [(Text, Match ''[fixed]'' []), (Text, Match ''(link)'' [])]"
    by code_simp
  have 9: "translate r ''[fixed](link)'' = Some ''[fixed](link)''" by code_simp
  from 1 2 3 4 5 6 7 8 9 show ?thesis by blast
qed

theorem change_type_tags_witness:
  "translate \<lparr>local_repo = ''org/repo'', product = None\<rparr> ''[feature]'' = Some ''{{feature}}''
   \<and> translate \<lparr>local_repo = ''org/repo'', product = None\<rparr> ''[added]'' = Some ''{{feature}}''
   \<and> Renderer_change_type \<lparr>local_repo = ''org/repo'', product = None\<rparr> ''fixed'' = ''{{fixed}}''
   \<and> Translator_change_type ''[changed] x'' = Some (Match ''[changed]'' ''changed'')
   \<and> Translator_change_type ''[changed](x)'' = None
   \<and> translate \<lparr>local_repo = ''org/repo'', product = None\<rparr> ''[fixed](link)'' = Some ''[fixed](link)''"
  using change_type_tags [of "\<lparr>local_repo = ''org/repo'', product = None\<rparr>" "''fixed''" "''changed''" "'' x''"]
    change_type_tags [of "\<lparr>local_repo = ''org/repo'', product = None\<rparr>" "''fixed''" "''changed''" "''x)''"]
  by (simp add: is_word_def)

section \<open>Repository resolution failure\<close>

text \<open>
  C7 (repository resolution failure). A remote URL is a string without a line feed, and
  \<^verbatim>\<open>git config\<close> prints it followed by one line feed. For every such URL that has
  neither the SSH shape \<^verbatim>\<open>git@github.com:<owner/repo>.git\<close> nor the HTTPS shape
  \<^verbatim>\<open>https://github.com/<owner/repo>.git\<close>, \<open>find_local_repo\<close> raises the lookup
  error and produces no result; for every one that has one of the shapes it returns the
  identifier between the prefix and \<^verbatim>\<open>.git\<close>. Both hold on the URL itself and on
  the URL followed by the line feed.
\<close>

theorem find_local_repo_resolution:
  assumes "newline \<notin> set url"
  shows "(has_remote_shape url \<longleftrightarrow> (\<exists>repo. remote_shape url repo))
   \<and> (\<not> has_remote_shape url \<longrightarrow>
        find_local_repo url = Inl (LookupError (lookup_message url))
        \<and> find_local_repo (url @ [newline])
            = Inl (LookupError (lookup_message (url @ [newline]))))
   \<and> (remote_shape url repo \<longrightarrow>
        find_local_repo url = Inr repo \<and> find_local_repo (url @ [newline]) = Inr repo)"
  using assms has_remote_shape_iff find_local_repo_no_shape find_local_repo_of_shape
  by blast

text \<open>
  At an SSH remote, at an HTTPS remote, and at an HTTPS remote without \<^verbatim>\<open>.git\<close>, each
  as it is and as \<^verbatim>\<open>git config\<close> prints it.
\<close>

theorem find_local_repo_resolution_witness:
  "find_local_repo ''git@github.com:org/repo.git'' = Inr ''org/repo''
   \<and> find_local_repo ''git@github.com:org/repo.git\<newline>'' = Inr ''org/repo''
   \<and> find_local_repo ''https://github.com/org/repo.git'' = Inr ''org/repo''
   \<and> find_local_repo ''https://github.com/org/repo.git\<newline>'' = Inr ''org/repo''
   \<and> \<not> has_remote_shape ''https://github.com/org/repo''
   \<and> find_local_repo ''https://github.com/org/repo''
       = Inl (LookupError (lookup_message ''https://github.com/org/repo''))
   \<and> find_local_repo ''https://github.com/org/repo\<newline>''
       = Inl (LookupError (lookup_message ''https://github.com/org/repo\<newline>''))"
proof -
  have n1: "newline \<notin> set ''git@github.com:org/repo.git''" by (simp add: newline_def)
  have n2: "newline \<notin> set ''https://github.com/org/repo.git''" by (simp add: newline_def)
  have n3: "newline \<notin> set ''https://github.com/org/repo''" by (simp add: newline_def)
  have s1: "remote_shape ''git@github.com:org/repo.git'' ''org/repo''"
    by (simp add: remote_shape_def)
  have s2: "remote_shape ''https://github.com/org/repo.git'' ''org/repo''"
    by (simp add: remote_shape_def)
  have s3: "\<not> has_remote_shape ''https://github.com/org/repo''" by code_simp
  from find_local_repo_resolution [OF n1, of "''org/repo''"] s1
  have 1: "find_local_repo ''git@github.com:org/repo.git'' = Inr ''org/repo''
      \<and> find_local_repo (''git@github.com:org/repo.git'' @ [newline]) = Inr ''org/repo''"
    by blast
  from find_local_repo_resolution [OF n2, of "''org/repo''"] s2
  have 2: "find_local_repo ''https://github.com/org/repo.git'' = Inr ''org/repo''
      \<and> find_local_repo (''https://github.com/org/repo.git'' @ [newline]) = Inr ''org/repo''"
    by blast
  from find_local_repo_resolution [OF n3] s3
  have 3: "find_local_repo ''https://github.com/org/repo''
       = Inl (LookupError (lookup_message ''https://github.com/org/repo''))
      \<and> find_local_repo (''https://github.com/org/repo'' @ [newline])
       = Inl (LookupError (lookup_message (''https://github.com/org/repo'' @ [newline])))"
    by blast
  from 1 2 3 s3 show ?thesis by (simp add: newline_def)
qed

section \<open>The line feed after a heading\<close>

text \<open>
  C8 (the heading match excludes the line's trailing line feed). On an input made of
  \<^verbatim>\<open>#\<close>, the rest of the line, a line feed and a tail, the heading rule matches
  \<^verbatim>\<open>#\<close> and the rest of the line only. The line feed is consumed by a later rule
  and is in the output: \<open>translate\<close> returns the rendered heading, then the line feed,
  then the rest. With the sentinel \<open>NO_HEADING\<close> configured, \<^verbatim>\<open># t\<close>, line feed,
  \<^verbatim>\<open>X\<close> is translated to a line feed and \<^verbatim>\<open>X\<close>: an empty first line remains.
\<close>

theorem heading_leaves_line_feed:
  "(newline \<notin> set line \<longrightarrow>
      Translator_heading (CHR ''#'' # line @ newline # rest) = Some (Match (CHR ''#'' # line) [])
      \<and> (\<exists>out. translate r (CHR ''#'' # line @ newline # rest)
                  = Some (Renderer_heading r (CHR ''#'' # line) @ newline # out)))
   \<and> translate \<lparr>local_repo = repo, product = Some NO_HEADING\<rparr> ''# t\<newline>X'' = Some ''\<newline>X''
   \<and> translate \<lparr>local_repo = repo, product = Some NO_HEADING\<rparr> ''# t\<newline>X'' \<noteq> Some ''X''"
proof -
  have 1: "newline \<notin> set line \<longrightarrow>
      Translator_heading (CHR ''#'' # line @ newline # rest) = Some (Match (CHR ''#'' # line) [])
      \<and> (\<exists>out. translate r (CHR ''#'' # line @ newline # rest)
                  = Some (Renderer_heading r (CHR ''#'' # line) @ newline # out))"
    using Translator_heading_line translate_after_heading by blast
  have 2: "translate \<lparr>local_repo = repo, product = Some NO_HEADING\<rparr> ''# t\<newline>X'' = Some ''\<newline>X''"
    by code_simp
  from 1 2 show ?thesis by simp
qed

theorem heading_leaves_line_feed_witness:
  "Translator_heading ''## 1.2.0\<newline>- x'' = Some (Match ''## 1.2.0'' [])
   \<and> (\<exists>out. translate \<lparr>local_repo = ''org/repo'', product = Some ''{{widgets}}''\<rparr> ''## 1.2.0\<newline>- x''
          = Some (''### {{widgets}}\<newline>\<newline>'' @ out))
   \<and> translate \<lparr>local_repo = ''org/repo'', product = Some NO_HEADING\<rparr> ''# t\<newline>X'' = Some ''\<newline>X''"
  using heading_leaves_line_feed [of "''# 1.2.0''" "''- x''"
      "\<lparr>local_repo = ''org/repo'', product = Some ''{{widgets}}''\<rparr>" "''org/repo''"]
  by (simp add: newline_def Renderer_heading_def NO_HEADING_def)

section \<open>Issue URLs without TLS\<close>

text \<open>
  C9 (issue URLs without TLS are never rewritten). \<open>Renderer_url\<close> returns every string
  that begins with \<^verbatim>\<open>http://\<close> unchanged, also one whose host and path are those of
  an issue, such as \<^verbatim>\<open>http://github.com/org/repo/issues/42\<close>: its pattern accepts
  \<^verbatim>\<open>https:\<close> or no scheme. The Translator's url rule matches both schemes: after
  \<^verbatim>\<open>http://\<close> or \<^verbatim>\<open>https://\<close>, a body of two or more characters without whitespace
  or \<^verbatim>\<open><\<close> that ends with a character of the pattern's last class is matched whole.
\<close>

theorem http_issue_urls_unchanged:
  "(prefix ''http://'' u \<longrightarrow> Renderer_url r u = u)
   \<and> ((sch = ''http://'' \<or> sch = ''https://'') \<and> 2 \<le> length b \<and> list_all url_char b
        \<and> url_last_char (last b) \<longrightarrow>
        Translator_url (sch @ b) = Some (Match (sch @ b) (sch @ b)))
   \<and> Translator_url ''http://github.com/org/repo/issues/42''
        = Some (Match ''http://github.com/org/repo/issues/42'' ''http://github.com/org/repo/issues/42'')
   \<and> translate r ''http://github.com/org/repo/issues/42''
        = Some ''http://github.com/org/repo/issues/42''"
proof -
  have 1: "prefix ''http://'' u \<longrightarrow> Renderer_url r u = u"
    using Renderer_url_http by blast
  have 2: "(sch = ''http://'' \<or> sch = ''https://'') \<and> 2 \<le> length b \<and> list_all url_char b
        \<and> url_last_char (last b) \<longrightarrow>
        Translator_url (sch @ b) = Some (Match (sch @ b) (sch @ b))"
    using Translator_url_body by blast
  have 3: "Translator_url ''http://github.com/org/repo/issues/42''
        = Some (Match ''http://github.com/org/repo/issues/42'' ''http://github.com/org/repo/issues/42'')"
    by code_simp
  have 4: "translate r ''http://github.com/org/repo/issues/42''
        = Some ''http://github.com/org/repo/issues/42''"
    by code_simp
  from 1 2 3 4 show ?thesis by blast
qed

theorem http_issue_urls_unchanged_witness:
  "Renderer_url \<lparr>local_repo = ''org/repo'', product = None\<rparr> ''http://github.com/org/repo/issues/42''
     = ''http://github.com/org/repo/issues/42''
   \<and> Translator_url ''https://github.com/org/repo/issues/42''
        = Some (Match ''https://github.com/org/repo/issues/42'' ''https://github.com/org/repo/issues/42'')
   \<and> Translator_url ''http://github.com/org/repo/issues/42''
        = Some (Match ''http://github.com/org/repo/issues/42'' ''http://github.com/org/repo/issues/42'')
   \<and> translate \<lparr>local_repo = ''org/repo'', product = None\<rparr> ''http://github.com/org/repo/issues/42''
        = Some ''http://github.com/org/repo/issues/42''"
  using http_issue_urls_unchanged [of "''http://github.com/org/repo/issues/42''"
      "\<lparr>local_repo = ''org/repo'', product = None\<rparr>" "''https://''" "''github.com/org/repo/issues/42''"]
  by (simp add: url_char_def url_last_char_def is_space_def)

section \<open>Bullets in the middle of a line\<close>

text \<open>
  C10 (bullet normalization is not restricted to line starts). The bullet rule matches
  any remaining text that begins with whitespace (none, or any run of \<^verbatim>\<open>\s\<close>, line
  feeds included), a marker and a space, and it is the first rule that matches there,
  wherever in its line the previous match ended. So a marker in the middle of a line is
  rewritten: with the local repository
  \<^verbatim>\<open>r\<close>, in \<^verbatim>\<open>(#1) - x\<close> the issue reference is matched first, then the bullet
  rule matches the space, the hyphen and the space, and the output is
  \<^verbatim>\<open>([#1](//github.com/r/issues/1)) * x\<close>.
\<close>

theorem bullet_in_mid_line:
  "(list_all is_space ws \<and> mk \<in> set ''*+-'' \<longrightarrow>
      Translator_bullet (ws @ mk # CHR '' '' # rest) = Some (Match (ws @ [mk, CHR '' '']) ws)
      \<and> first_match rules (ws @ mk # CHR '' '' # rest)
          = Some (Bullet, Match (ws @ [mk, CHR '' '']) ws))
   \<and> matches ''(#1) - x''
        = Some [(Local_issue_link, Match ''(#1)'' ''1''), (Bullet, Match '' - '' '' ''),
                (Text, Match ''x'' [])]
   \<and> translate \<lparr>local_repo = ''r'', product = p\<rparr> ''(#1) - x''
        = Some ''([#1](//github.com/r/issues/1)) * x''"
proof -
  have 1: "list_all is_space ws \<and> mk \<in> set ''*+-'' \<longrightarrow>
      Translator_bullet (ws @ mk # CHR '' '' # rest) = Some (Match (ws @ [mk, CHR '' '']) ws)
      \<and> first_match rules (ws @ mk # CHR '' '' # rest)
          = Some (Bullet, Match (ws @ [mk, CHR '' '']) ws)"
    using Translator_bullet_marker first_match_bullet by blast
  have 2: "matches ''(#1) - x''
        = Some [(Local_issue_link, Match ''(#1)'' ''1''), (Bullet, Match '' - '' '' ''),
                (Text, Match ''x'' [])]"
    by code_simp
  have 3: "translate \<lparr>local_repo = ''r'', product = p\<rparr> ''(#1) - x''
        = Some ''([#1](//github.com/r/issues/1)) * x''"
    by code_simp
  from 1 2 3 show ?thesis by blast
qed

theorem bullet_in_mid_line_witness:
  "Translator_bullet ''\<newline>  + x'' = Some (Match ''\<newline>  + '' ''\<newline>  '')
   \<and> first_match rules ''\<newline>  + x'' = Some (Bullet, Match ''\<newline>  + '' ''\<newline>  '')
   \<and> matches ''(#1) - x''
        = Some [(Local_issue_link, Match ''(#1)'' ''1''), (Bullet, Match '' - '' '' ''),
                (Text, Match ''x'' [])]
   \<and> translate \<lparr>local_repo = ''r'', product = None\<rparr> ''(#1) - x''
        = Some ''([#1](//github.com/r/issues/1)) * x''"
  using bullet_in_mid_line [of "''\<newline>  ''" "CHR ''+''" "''x''" None]
  by (simp add: is_space_def)

end
